theory Spec2Isabelle
  imports Main
begin

section \<open>The batch ingestor \<open>load_data_fast\<close>\<close>

text \<open>
  The program is one function, \<open>load_data_fast(data_path, engine, chunksize)\<close>. It lists a
  directory, and for every entry whose name ends in \<open>.csv\<close> it counts the lines of the file,
  opens a chunked pandas reader, sends the first chunk through \<open>DataFrame.to_sql\<close> on the
  engine and every further chunk through \<open>COPY ... FROM STDIN\<close> on a raw connection, commits
  the raw connection, and handles exceptions in a \<open>try / except / finally\<close>.

  The model passes the state explicitly: the committed contents of the database (a map from
  table names to rows) and the list of observable actions (prints, log lines, progress-bar
  calls, database calls) in the order the program issues them. Exceptions are values.
  The calls into pandas, SQLAlchemy, psycopg2 and the file system are the environment: which
  of them raise in a given run is a parameter of the model (\<open>faults\<close>).
\<close>

subsection \<open>Exceptions and the environment\<close>

text \<open>
  \<open>StopIteration\<close> is kept apart from every other exception because the source has a handler
  of its own for it (line 92). Every other exception is an \<open>Error\<close> carrying its message.
\<close>

datatype exn = StopIteration | Error string

text \<open>
  The external calls of one loop iteration that may raise, in source order:
  line 53 (\<open>open\<close> and the line count), line 56 (\<open>pd.read_csv\<close>), lines 64 and 78 (the reader
  parsing its \<open>k\<close>-th chunk, counted from 0), line 67 (\<open>to_sql\<close>), line 75
  (\<open>engine.raw_connection\<close>), line 85 (\<open>copy_expert\<close> for chunk \<open>k\<close>), line 89 (\<open>commit\<close>),
  line 98 (\<open>rollback\<close>) and line 101 (\<open>close\<close>).
\<close>

datatype call =
    CallOpen
  | CallReadCsv
  | CallNext nat
  | CallToSql
  | CallRawConnection
  | CallCopy nat
  | CallCommit
  | CallRollback
  | CallClose

text \<open>\<open>flt c = Some msg\<close>: in this run the call \<open>c\<close> raises an exception with message \<open>msg\<close>.\<close>

type_synonym faults = "call \<Rightarrow> string option"

subsection \<open>Observable actions\<close>

text \<open>
  One constructor per \<open>print\<close>, \<open>logging\<close>, progress-bar and database call of the source. An
  event records that the call was issued; a database call that raises is still recorded, and
  the exception shows in what follows it. Calls on the raw connection carry the name of the
  file the connection was opened for. The elapsed time printed at line 107 is not modelled.
\<close>

datatype event =
    PrintChecking
  | PrintFoundFiles "string list"
  | PrintNoFiles
  | PrintStarting string
  | PrintPreCounting string
  | PrintFoundRows int
  | PbarOpen string int
  | PbarUpdate nat
  | PrintInserting string
  | ToSql string "string list" "string list"
  | PrintFirstInserted
  | PrintSwitching
  | RawConnection string
  | CopyExpert string string string "string list"
  | Commit string
  | LogInfoIngested string
  | LogWarningSkipped string
  | LogErrorUploading string string
  | Rollback string
  | Close string
  | PrintClosed string
  | LogInfoCompleted
  | PrintAllProcessed

subsection \<open>Files and table names\<close>

text \<open>
  A directory entry: its name and the lines of its text. Python's iteration over an open
  file yields one item per line, the last one also when it lacks the newline.
\<close>

record src_file =
  fname :: string
  flines :: "string list"

text \<open>\<open>str.endswith\<close>.\<close>

definition endswith :: "string \<Rightarrow> string \<Rightarrow> bool" where
  "endswith s suf = (length suf \<le> length s \<and> drop (length s - length suf) s = suf)"

text \<open>\<open>str.rfind\<close> for one character: the highest index holding it.\<close>

fun rfind :: "char \<Rightarrow> string \<Rightarrow> nat option" where
  "rfind c [] = None"
| "rfind c (x # xs) =
     (case rfind c xs of
        Some i \<Rightarrow> Some (Suc i)
      | None \<Rightarrow> if x = c then Some 0 else None)"

text \<open>
  \<open>os.path.splitext\<close> on a bare file name (\<open>os.listdir\<close> returns names without directory
  separators, so the separator index of CPython's \<open>genericpath._splitext\<close> is \<open>-1\<close>): the
  extension starts at the last dot, provided some character before that dot is not a dot.
\<close>

definition splitext :: "string \<Rightarrow> string \<times> string" where
  "splitext p =
     (case rfind (CHR ''.'') p of
        None \<Rightarrow> (p, [])
      | Some d \<Rightarrow>
          if list_ex (\<lambda>c. c \<noteq> CHR ''.'') (take d p) then (take d p, drop d p)
          else (p, []))"

text \<open>
  \<open>str.lower\<close>. A \<open>char\<close> of a file name is read as a Unicode code point below 256; a name
  with a code point beyond that is outside the type. In this range the upper-case letters
  are \<open>A\<close> to \<open>Z\<close> (65 to 90) and the accented capitals 192 to 222 without the
  multiplication sign 215, and \<open>str.lower\<close> maps each of them to the code point 32 above
  it and leaves every other character as it is.
\<close>

definition lower_char :: "char \<Rightarrow> char" where
  "lower_char c =
     (let n = (of_char c :: nat)
      in if (65 \<le> n \<and> n \<le> 90) \<or> (192 \<le> n \<and> n \<le> 222 \<and> n \<noteq> 215)
         then char_of (n + 32) else c)"

definition lower :: "string \<Rightarrow> string" where
  "lower s = map lower_char s"

text \<open>Line 47: \<open>table_name = os.path.splitext(file)[0].lower()\<close>.\<close>

definition table_name :: "string \<Rightarrow> string" where
  "table_name file = lower (fst (splitext file))"

subsection \<open>The chunked reader\<close>

record chunk =
  columns :: "string list"
  crows :: "string list"

text \<open>The header line cut at its commas (quoting inside the header is not modelled).\<close>

fun split_commas :: "string \<Rightarrow> string list" where
  "split_commas [] = [[]]"
| "split_commas (c # cs) =
     (if c = CHR '','' then [] # split_commas cs
      else (case split_commas cs of
              [] \<Rightarrow> [[c]]
            | w # ws \<Rightarrow> (c # w) # ws))"

text \<open>Consecutive pieces of \<open>n\<close> rows, the last one possibly shorter.\<close>

function pieces :: "nat \<Rightarrow> 'a list \<Rightarrow> 'a list list" where
  "pieces n xs = (if n = 0 \<or> xs = [] then [] else take n xs # pieces n (drop n xs))"
  by pat_completeness auto
termination
  by (relation "measure (\<lambda>(n, xs). length xs)") auto

declare pieces.simps [simp del]

text \<open>
  What the pandas reader yields for the data rows of a file. Every physical line after the
  header is taken as one record (no blank lines, no line breaks inside quoted fields).
  For a file with a header and no data row the first read does not raise
  \<open>StopIteration\<close>: pandas' parser wrappers catch it on the first chunk
  (\<open>self._first_chunk\<close>) and return a frame with the header's columns and no rows; only the
  next read raises. So such a file yields one chunk, with no rows.
\<close>

definition read_chunks :: "nat \<Rightarrow> string list \<Rightarrow> string list list" where
  "read_chunks n data = (if data = [] then [[]] else pieces n data)"

text \<open>
  Line 56, \<open>pd.read_csv(file_path, chunksize=chunksize, iterator=True)\<close>. pandas validates
  \<open>chunksize >= 1\<close> first (\<open>ValueError\<close>), then builds the parser, which reads the header at
  once and raises \<open>EmptyDataError\<close> (\<open>No columns to parse from file\<close>) when the file has no
  line at all. The result is the list of chunks the reader will yield; parsing is lazy, so a
  malformed row raises only when its chunk is pulled (\<open>CallNext\<close>, below).
\<close>

definition read_csv :: "faults \<Rightarrow> nat \<Rightarrow> string list \<Rightarrow> exn + chunk list" where
  "read_csv flt chunksize lines =
     (if chunksize < 1 then Inl (Error ''ValueError'')
      else case flt CallReadCsv of
        Some m \<Rightarrow> Inl (Error m)
      | None \<Rightarrow>
          (case lines of
             [] \<Rightarrow> Inl (Error ''EmptyDataError'')
           | header # data \<Rightarrow>
               Inr (map (\<lambda>rs. \<lparr>columns = split_commas header, crows = rs\<rparr>)
                        (read_chunks chunksize data))))"

subsection \<open>The database\<close>

text \<open>
  The committed contents: table name to rows, in insertion order. A table that does not
  exist is \<open>None\<close>. Column types are not modelled.
\<close>

type_synonym tables = "string \<Rightarrow> string list option"

text \<open>
  \<open>to_sql(..., if_exists='append')\<close>: create the table when it is missing, then append the
  rows (none, for a frame without rows: the table is created all the same). \<open>to_sql\<close> on an
  engine runs in a transaction of its own and commits it. The same function gives the effect
  of committing the rows copied on the raw connection.
\<close>

definition append_rows :: "string \<Rightarrow> string list \<Rightarrow> tables \<Rightarrow> tables" where
  "append_rows tn rs tb = tb(tn \<mapsto> (case tb tn of None \<Rightarrow> [] | Some old \<Rightarrow> old) @ rs)"

text \<open>Line 83: \<open>','.join(f'"{c}"' for c in chunk.columns)\<close>.\<close>

fun join_commas :: "string list \<Rightarrow> string" where
  "join_commas [] = []"
| "join_commas [s] = s"
| "join_commas (s # t # ss) = s @ '','' @ join_commas (t # ss)"

definition quoted_cols :: "string list \<Rightarrow> string" where
  "quoted_cols cs = join_commas (map (\<lambda>c. [CHR 0x22] @ c @ [CHR 0x22]) cs)"

subsection \<open>One file\<close>

text \<open>
  Lines 78 to 87, the loop over the remaining chunks; \<open>k\<close> is the number of the chunk in the
  file. The result is the exception that ended the loop, if any, the rows copied so far
  inside the raw connection's open transaction, and the events.
\<close>

fun copy_loop ::
  "faults \<Rightarrow> string \<Rightarrow> string \<Rightarrow> nat \<Rightarrow> chunk list \<Rightarrow> exn option \<times> string list \<times> event list" where
  "copy_loop flt file tn k [] = (None, [], [])"
| "copy_loop flt file tn k (c # cs) =
     (case flt (CallNext k) of
        Some m \<Rightarrow> (Some (Error m), [], [])
      | None \<Rightarrow>
          (case flt (CallCopy k) of
             Some m \<Rightarrow>
               (Some (Error m), [], [CopyExpert file tn (quoted_cols (columns c)) (crows c)])
           | None \<Rightarrow>
               (case copy_loop flt file tn (Suc k) cs of
                  (r, pend, ev) \<Rightarrow>
                    (r, crows c @ pend,
                     CopyExpert file tn (quoted_cols (columns c)) (crows c)
                       # PbarUpdate (length (crows c)) # ev))))"

text \<open>
  Lines 63 to 90, the body of the \<open>try\<close>. The result: the exception raised, if any; whether
  \<open>raw_conn\<close> was assigned; the committed tables; the events. Rows copied on the raw connection
  reach the committed tables only through a \<open>commit\<close> that returns.
\<close>

definition try_block ::
  "faults \<Rightarrow> string \<Rightarrow> string \<Rightarrow> chunk list \<Rightarrow> tables \<Rightarrow> exn option \<times> bool \<times> tables \<times> event list" where
  "try_block flt file tn reader tb =
     (case flt (CallNext 0) of
        Some m \<Rightarrow> (Some (Error m), False, tb, [])
      | None \<Rightarrow>
      (case reader of
        [] \<Rightarrow> (Some StopIteration, False, tb, [])
      | first_chunk # rest \<Rightarrow>
      (let ins = [PrintInserting file, ToSql tn (columns first_chunk) (crows first_chunk)]
       in case flt CallToSql of
        Some m \<Rightarrow> (Some (Error m), False, tb, ins)
      | None \<Rightarrow>
      (let tb1 = append_rows tn (crows first_chunk) tb;
           ev1 = ins @ [PbarUpdate (length (crows first_chunk)), PrintFirstInserted,
                        PrintSwitching, RawConnection file]
       in case flt CallRawConnection of
        Some m \<Rightarrow> (Some (Error m), False, tb1, ev1)
      | None \<Rightarrow>
      (case copy_loop flt file tn 1 rest of
        (Some e, pend, ev2) \<Rightarrow> (Some e, True, tb1, ev1 @ ev2)
      | (None, pend, ev2) \<Rightarrow>
      (case flt CallCommit of
        Some m \<Rightarrow> (Some (Error m), True, tb1, ev1 @ ev2 @ [Commit file])
      | None \<Rightarrow>
          (None, True, append_rows tn pend tb1,
           ev1 @ ev2 @ [Commit file, LogInfoIngested file])))))))"

text \<open>
  Lines 92 to 98, the handlers. \<open>StopIteration\<close>: a warning, then \<open>continue\<close>. Any other
  exception: an error line, and a rollback when \<open>raw_conn\<close> is set; the rollback may raise
  in its turn. The result is the exception still pending after the handler.
\<close>

definition handlers :: "faults \<Rightarrow> string \<Rightarrow> bool \<Rightarrow> exn option \<Rightarrow> exn option \<times> event list" where
  "handlers flt file raw_conn r =
     (case r of
        None \<Rightarrow> (None, [])
      | Some StopIteration \<Rightarrow> (None, [LogWarningSkipped file])
      | Some (Error m) \<Rightarrow>
          if raw_conn
          then (map_option Error (flt CallRollback), [LogErrorUploading file m, Rollback file])
          else (None, [LogErrorUploading file m]))"

text \<open>
  Lines 99 to 102, the \<open>finally\<close>: it runs on every path, also after \<open>continue\<close> and with an
  exception pending. An exception raised by \<open>close\<close> replaces the pending one.
\<close>

definition finally_block :: "faults \<Rightarrow> string \<Rightarrow> bool \<Rightarrow> exn option \<Rightarrow> exn option \<times> event list" where
  "finally_block flt file raw_conn pending =
     (if raw_conn
      then (case flt CallClose of
              Some m \<Rightarrow> (Some (Error m), [Close file])
            | None \<Rightarrow> (pending, [Close file, PrintClosed file]))
      else (pending, []))"

text \<open>Lines 60 to 102: the progress bar seeded with \<open>total_rows\<close>, and the \<open>try\<close> statement.\<close>

definition upload ::
  "faults \<Rightarrow> string \<Rightarrow> string \<Rightarrow> int \<Rightarrow> chunk list \<Rightarrow> tables \<Rightarrow> exn option \<times> tables \<times> event list" where
  "upload flt file tn total_rows reader tb =
     (case try_block flt file tn reader tb of
        (r, raw_conn, tb1, ev) \<Rightarrow>
          (case handlers flt file raw_conn r of
             (r1, ev1) \<Rightarrow>
               (case finally_block flt file raw_conn r1 of
                  (r2, ev2) \<Rightarrow> (r2, tb1, PbarOpen file total_rows # ev @ ev1 @ ev2))))"

text \<open>
  Lines 45 to 102, one iteration of the loop over the files. The line count and the reader
  are outside the \<open>try\<close>: an exception there leaves the function.
\<close>

definition process_file ::
  "nat \<Rightarrow> faults \<Rightarrow> src_file \<Rightarrow> tables \<Rightarrow> exn option \<times> tables \<times> event list" where
  "process_file chunksize flt f tb =
     (let file = fname f;
          tn = table_name file;
          start = [PrintStarting file, PrintPreCounting file]
      in case flt CallOpen of
        Some m \<Rightarrow> (Some (Error m), tb, start)
      | None \<Rightarrow>
          (let total_rows = int (length (flines f)) - 1;
               counted = start @ [PrintFoundRows total_rows]
           in case read_csv flt chunksize (flines f) of
                Inl e \<Rightarrow> (Some e, tb, counted)
              | Inr reader \<Rightarrow>
                  (case upload flt file tn total_rows reader tb of
                     (r, tb1, ev) \<Rightarrow> (r, tb1, counted @ ev))))"

subsection \<open>The run\<close>

text \<open>
  Line 44, the loop; \<open>env\<close> gives the faults of each file by its name. An exception that
  leaves an iteration ends the loop.
\<close>

fun process_files ::
  "nat \<Rightarrow> (string \<Rightarrow> faults) \<Rightarrow> src_file list \<Rightarrow> tables \<Rightarrow> exn option \<times> tables \<times> event list" where
  "process_files chunksize env [] tb = (None, tb, [])"
| "process_files chunksize env (f # fs) tb =
     (case process_file chunksize (env (fname f)) f tb of
        (Some e, tb1, ev) \<Rightarrow> (Some e, tb1, ev)
      | (None, tb1, ev) \<Rightarrow>
          (case process_files chunksize env fs tb1 of
             (r, tb2, ev2) \<Rightarrow> (r, tb2, ev @ ev2)))"

text \<open>Line 37: the entries whose name ends in \<open>.csv\<close>, in listing order.\<close>

definition csv_files :: "src_file list \<Rightarrow> src_file list" where
  "csv_files dir = filter (\<lambda>f. endswith (fname f) ''.csv'') dir"

text \<open>
  Lines 33 to 107. The result: the exception that left the function, if any, the committed
  tables and all events.
\<close>

definition load_data_fast ::
  "src_file list \<Rightarrow> (string \<Rightarrow> faults) \<Rightarrow> nat \<Rightarrow> tables \<Rightarrow> exn option \<times> tables \<times> event list" where
  "load_data_fast dir env chunksize tb =
     (let found = [PrintChecking, PrintFoundFiles (map fname (csv_files dir))]
      in if csv_files dir = [] then (None, tb, found @ [PrintNoFiles])
         else (case process_files chunksize env (csv_files dir) tb of
                 (Some e, tb1, ev) \<Rightarrow> (Some e, tb1, found @ ev)
               | (None, tb1, ev) \<Rightarrow>
                   (None, tb1, found @ ev @ [LogInfoCompleted, PrintAllProcessed])))"

subsection \<open>Reading a result\<close>

definition raised :: "exn option \<times> tables \<times> event list \<Rightarrow> exn option" where
  "raised res = fst res"

definition db_of :: "exn option \<times> tables \<times> event list \<Rightarrow> tables" where
  "db_of res = fst (snd res)"

definition trace_of :: "exn option \<times> tables \<times> event list \<Rightarrow> event list" where
  "trace_of res = snd (snd res)"

text \<open>The rows of a table, none when it does not exist.\<close>

definition rows_of :: "tables \<Rightarrow> string \<Rightarrow> string list" where
  "rows_of tb tn = (case tb tn of None \<Rightarrow> [] | Some rs \<Rightarrow> rs)"

text \<open>
  The two ways a chunk is sent: \<open>to_sql\<close> on the engine, \<open>copy_expert\<close> on the raw
  connection. \<open>transfers\<close> reads off a trace the chunks sent, in order, each with its path,
  its target table and its rows.
\<close>

datatype path = GenericInsert | BulkCopy

fun transfer_of :: "event \<Rightarrow> (path \<times> string \<times> string list) option" where
  "transfer_of (ToSql tn cols rs) = Some (GenericInsert, tn, rs)"
| "transfer_of (CopyExpert file tn cols rs) = Some (BulkCopy, tn, rs)"
| "transfer_of _ = None"

fun transfers :: "event list \<Rightarrow> (path \<times> string \<times> string list) list" where
  "transfers [] = []"
| "transfers (e # es) =
     (case transfer_of e of None \<Rightarrow> transfers es | Some t \<Rightarrow> t # transfers es)"

text \<open>The environment in which no external call raises.\<close>

definition no_faults :: faults where
  "no_faults = (\<lambda>c. None)"

text \<open>
  The rows a run without errors adds to a table: the data rows of the files whose table
  name it is, in listing order.
\<close>

definition added_rows :: "src_file list \<Rightarrow> string \<Rightarrow> string list" where
  "added_rows dir tn =
     concat (map (\<lambda>f. tl (flines f)) (filter (\<lambda>f. table_name (fname f) = tn) (csv_files dir)))"

text \<open>The ingestor run a second time over the same directory, on the database the first run left.\<close>

definition run_twice ::
  "src_file list \<Rightarrow> (string \<Rightarrow> faults) \<Rightarrow> nat \<Rightarrow> tables \<Rightarrow> exn option \<times> tables \<times> event list" where
  "run_twice dir env chunksize tb =
     load_data_fast dir env chunksize (db_of (load_data_fast dir env chunksize tb))"

text \<open>The events of the loop over the remaining chunks of one file.\<close>

fun is_copy_event :: "string \<Rightarrow> string \<Rightarrow> event \<Rightarrow> bool" where
  "is_copy_event file tn (CopyExpert f t cols rs) = (f = file \<and> t = tn)"
| "is_copy_event file tn (PbarUpdate n) = True"
| "is_copy_event file tn _ = False"

text \<open>
  What lower-casing means, said without the function that does it: \<open>is_upper\<close> holds of the
  upper-case letters below code point 256 (\<open>str.isupper\<close> on one character), and \<open>lowered a b\<close>
  says that \<open>b\<close> is \<open>a\<close> itself when \<open>a\<close> is not an upper-case letter and the letter 32 code
  points above it when it is.
\<close>

definition is_upper :: "char \<Rightarrow> bool" where
  "is_upper c =
     (c \<in> set ''ABCDEFGHIJKLMNOPQRSTUVWXYZ''
      \<or> (192 \<le> (of_char c :: nat) \<and> (of_char c :: nat) \<le> 214)
      \<or> (216 \<le> (of_char c :: nat) \<and> (of_char c :: nat) \<le> 222))"

definition lowered :: "char \<Rightarrow> char \<Rightarrow> bool" where
  "lowered a b = (if is_upper a then (of_char b :: nat) = of_char a + 32 else b = a)"

subsection \<open>Example inputs\<close>

text \<open>
  The example of the specification, scaled down: \<open>sales.csv\<close> with a header and five data
  rows, \<open>empty.csv\<close> with a header only; and \<open>zero.csv\<close>, a file of zero bytes.
\<close>

definition sales_csv :: src_file where
  "sales_csv = \<lparr>fname = ''sales.csv'',
                 flines = [''id,qty'', ''1,5'', ''2,7'', ''3,9'', ''4,2'', ''5,4'']\<rparr>"

definition empty_csv :: src_file where
  "empty_csv = \<lparr>fname = ''empty.csv'', flines = [''id,qty'']\<rparr>"

definition zero_csv :: src_file where
  "zero_csv = \<lparr>fname = ''zero.csv'', flines = []\<rparr>"

text \<open>
  A file whose name has upper-case letters, among them the accented capital of code point
  201 (lower-case 233), and three data rows.
\<close>

definition report_csv :: src_file where
  "report_csv = \<lparr>fname = [CHR 0xC9, CHR ''t'', CHR 0xC9, CHR ''_'', CHR ''Q'', CHR ''1''] @ ''.csv'',
                  flines = [''id,qty'', ''1,5'', ''2,7'', ''3,9'']\<rparr>"

text \<open>A database in which the table \<open>sales\<close> already holds one row.\<close>

definition old_db :: tables where
  "old_db = [''sales'' \<mapsto> [''0,0'']]"

text \<open>
  Environments in which calls raise while \<open>sales.csv\<close> is processed: the copy of its third
  chunk, that copy and then the rollback, the line count, the first-chunk insert.
\<close>

definition copy_fails :: "string \<Rightarrow> faults" where
  "copy_fails = (\<lambda>_. no_faults)(''sales.csv'' := no_faults(CallCopy 2 := Some ''copy failed''))"

definition copy_and_rollback_fail :: "string \<Rightarrow> faults" where
  "copy_and_rollback_fail =
     (\<lambda>_. no_faults)(''sales.csv'' :=
        no_faults(CallCopy 2 := Some ''copy failed'', CallRollback := Some ''rollback failed''))"

definition count_fails :: "string \<Rightarrow> faults" where
  "count_fails = (\<lambda>_. no_faults)(''sales.csv'' := no_faults(CallOpen := Some ''UnicodeDecodeError''))"

definition insert_fails :: "string \<Rightarrow> faults" where
  "insert_fails = (\<lambda>_. no_faults)(''sales.csv'' := no_faults(CallToSql := Some ''insert failed''))"

section \<open>Properties\<close>

subsection \<open>Chunks\<close>

lemma pieces_Nil [simp]: "pieces n [] = []"
  by (simp add: pieces.simps)

lemma pieces_step: "0 < n \<Longrightarrow> xs \<noteq> [] \<Longrightarrow> pieces n xs = take n xs # pieces n (drop n xs)"
  by (subst pieces.simps) simp

lemma concat_pieces: "0 < n \<Longrightarrow> concat (pieces n xs) = xs"
proof (induction n xs rule: pieces.induct)
  case (1 n xs)
  show ?case
  proof (cases "xs = []")
    case True
    then show ?thesis by simp
  next
    case False
    with 1 show ?thesis by (simp add: pieces_step)
  qed
qed

lemma ceil_div_Suc: "0 < n \<Longrightarrow> 0 < m \<Longrightarrow> (m + n - 1) div n = Suc ((m - 1) div (n::nat))"
proof -
  assume a: "0 < n" "0 < m"
  have "(m - 1 + n) div n = Suc ((m - 1 + n - n) div n)"
    using a by (intro le_div_geq) simp_all
  moreover have "m - 1 + n = m + n - 1" using a by simp
  ultimately show ?thesis by simp
qed

lemma length_pieces: "0 < n \<Longrightarrow> length (pieces n xs) = (length xs + n - 1) div n"
proof (induction n xs rule: pieces.induct)
  case (1 n xs)
  show ?case
  proof (cases "xs = []")
    case True
    then show ?thesis using 1 by simp
  next
    case False
    have ih: "length (pieces n (drop n xs)) = (length (drop n xs) + n - 1) div n"
      using 1 False by simp
    have step: "length (pieces n xs) = Suc (length (pieces n (drop n xs)))"
      using 1(2) False by (simp add: pieces_step)
    have lhs: "(length xs + n - 1) div n = Suc ((length xs - 1) div n)"
      using 1(2) False by (intro ceil_div_Suc) simp_all
    show ?thesis
    proof (cases "length xs \<le> n")
      case True
      then have "drop n xs = []" by simp
      moreover have "(length xs - 1) div n = 0"
        using True False 1(2) by (cases xs) simp_all
      ultimately show ?thesis using step lhs by simp
    next
      case gt: False
      then have pos: "0 < length xs - n" by simp
      have "(length (drop n xs) + n - 1) div n = Suc ((length xs - n - 1) div n)"
        using ceil_div_Suc [OF 1(2) pos] by simp
      moreover have "(length xs - 1) div n = Suc ((length xs - 1 - n) div n)"
        using 1(2) gt by (intro le_div_geq) simp_all
      moreover have "length xs - 1 - n = length xs - n - 1" by simp
      ultimately show ?thesis using step lhs ih by simp
    qed
  qed
qed

subsection \<open>The loop over the remaining chunks\<close>

lemma transfers_append [simp]: "transfers (xs @ ys) = transfers xs @ transfers ys"
  by (induction xs) (auto split: option.splits)

lemma no_faults_apply: "no_faults c = None"
  by (simp add: no_faults_def)

lemma copy_loop_no_faults:
  "copy_loop no_faults file tn k cs =
     (None, concat (map crows cs),
      concat (map (\<lambda>c. [CopyExpert file tn (quoted_cols (columns c)) (crows c),
                           PbarUpdate (length (crows c))]) cs))"
  by (induction cs arbitrary: k) (simp_all add: no_faults_apply)

lemma copy_loop_events:
  "copy_loop flt file tn k cs = (r, pend, ev) \<Longrightarrow> list_all (is_copy_event file tn) ev"
  by (induction cs arbitrary: k r pend ev) (auto split: option.splits prod.splits)

lemma copy_loop_not_stop:
  "copy_loop flt file tn k cs = (r, pend, ev) \<Longrightarrow> r \<noteq> Some StopIteration"
  by (induction cs arbitrary: k r pend ev) (auto split: option.splits prod.splits)

lemma copy_loop_count_Close:
  "copy_loop flt file tn k cs = (r, pend, ev) \<Longrightarrow> count_list ev (Close x) = 0"
  by (induction cs arbitrary: k r pend ev) (auto split: option.splits prod.splits)


subsection \<open>One file, nothing raising\<close>

lemma append_rows_twice:
  "append_rows tn b (append_rows tn a tb) = append_rows tn (a @ b) tb"
  by (simp add: append_rows_def)

lemma rows_of_append_rows:
  "rows_of (append_rows tn rs tb) t = (if t = tn then rows_of tb t @ rs else rows_of tb t)"
  by (simp add: rows_of_def append_rows_def)

lemma read_chunks_nonempty: "0 < n \<Longrightarrow> read_chunks n data \<noteq> []"
  by (cases data) (simp_all add: read_chunks_def pieces_step)

lemma concat_read_chunks: "0 < n \<Longrightarrow> concat (read_chunks n data) = data"
  by (simp add: read_chunks_def concat_pieces)

lemma read_chunks_data:
  "0 < n \<Longrightarrow> data \<noteq> [] \<Longrightarrow> read_chunks n data = take n data # pieces n (drop n data)"
  by (simp add: read_chunks_def pieces_step)

lemma upload_no_faults:
  "upload no_faults file tn t (c # cs) tb =
     (None, append_rows tn (concat (map crows (c # cs))) tb,
      [PbarOpen file t, PrintInserting file, ToSql tn (columns c) (crows c),
       PbarUpdate (length (crows c)), PrintFirstInserted, PrintSwitching, RawConnection file]
      @ concat (map (\<lambda>c. [CopyExpert file tn (quoted_cols (columns c)) (crows c),
                           PbarUpdate (length (crows c))]) cs)
      @ [Commit file, LogInfoIngested file, Close file, PrintClosed file])"
  by (simp add: upload_def try_block_def copy_loop_no_faults handlers_def finally_block_def
        append_rows_twice no_faults_apply)

lemma read_csv_no_faults:
  "0 < C \<Longrightarrow> read_csv no_faults C (header # data) =
     Inr (map (\<lambda>rs. \<lparr>columns = split_commas header, crows = rs\<rparr>) (read_chunks C data))"
  by (simp add: read_csv_def no_faults_apply)

lemma process_file_no_faults_db:
  assumes "0 < C" and "flines f = header # data"
  shows "raised (process_file C no_faults f tb) = None"
    and "db_of (process_file C no_faults f tb) = append_rows (table_name (fname f)) data tb"
proof -
  obtain c cs where cs: "read_chunks C data = c # cs"
    using read_chunks_nonempty [OF assms(1), of data] by (cases "read_chunks C data") auto
  have "concat (c # cs) = data"
    using concat_read_chunks [OF assms(1), of data] cs by simp
  then have cc: "c @ concat cs = data" by simp
  have m: "concat (map crows (map (\<lambda>rs. \<lparr>columns = split_commas header, crows = rs\<rparr>) cs)) = concat cs"
    by (induction cs) simp_all
  show "raised (process_file C no_faults f tb) = None"
    using assms cs
    by (simp add: process_file_def read_csv_no_faults upload_no_faults raised_def Let_def
          no_faults_apply)
  show "db_of (process_file C no_faults f tb) = append_rows (table_name (fname f)) data tb"
    using assms cs cc m
    by (simp add: process_file_def read_csv_no_faults upload_no_faults db_of_def Let_def o_def
          no_faults_apply)
qed

lemma process_file_no_faults_transfers:
  assumes "0 < C" and "flines f = header # data" and "data \<noteq> []"
  shows "transfers (trace_of (process_file C no_faults f tb)) =
           (GenericInsert, table_name (fname f), take C data)
             # map (\<lambda>rs. (BulkCopy, table_name (fname f), rs)) (pieces C (drop C data))"
proof -
  have t: "transfers (concat (map ((\<lambda>c. [CopyExpert fl tn (quoted_cols (columns c)) (crows c),
              PbarUpdate (length (crows c))]) \<circ> (\<lambda>rs. \<lparr>columns = cols, crows = rs\<rparr>)) rss))
            = map (\<lambda>rs. (BulkCopy, tn, rs)) rss" for fl tn cols rss
    by (induction rss) simp_all
  show ?thesis
    using assms
    by (simp add: process_file_def read_csv_no_faults read_chunks_data upload_no_faults
          trace_of_def Let_def t no_faults_apply)
qed


text \<open>
  Claim C1. A file with a header and \<open>N \<ge> 1\<close> data rows, read with chunk size \<open>C \<ge> 1\<close> in a
  run where no call raises: the iteration ends without an exception, the target table holds
  its former rows followed by the \<open>N\<close> data rows, the data is sent as
  \<open>ceil(N / C) = (N + C - 1) div C\<close> chunks that together are the data rows in order, the
  first through \<open>to_sql\<close> and every later one through \<open>copy_expert\<close>.
\<close>

theorem C1_rows_inserted_and_chunks:
  assumes "0 < C" and "flines f = header # data" and "data \<noteq> []"
  shows "raised (process_file C no_faults f tb) = None
       \<and> db_of (process_file C no_faults f tb) = append_rows (table_name (fname f)) data tb
       \<and> length (rows_of (db_of (process_file C no_faults f tb)) (table_name (fname f)))
           = length (rows_of tb (table_name (fname f))) + length data
       \<and> length (transfers (trace_of (process_file C no_faults f tb)))
           = (length data + C - 1) div C
       \<and> concat (map (\<lambda>t. snd (snd t)) (transfers (trace_of (process_file C no_faults f tb))))
           = data
       \<and> map fst (transfers (trace_of (process_file C no_faults f tb)))
           = GenericInsert # replicate ((length data + C - 1) div C - 1) BulkCopy"
proof -
  let ?res = "process_file C no_faults f tb"
  let ?tn = "table_name (fname f)"
  have r: "raised ?res = None"
    using assms(1,2) by (rule process_file_no_faults_db(1))
  have d: "db_of ?res = append_rows ?tn data tb"
    using assms(1,2) by (rule process_file_no_faults_db(2))
  have n: "length (rows_of (db_of ?res) ?tn) = length (rows_of tb ?tn) + length data"
    by (simp add: d rows_of_append_rows)
  have t: "transfers (trace_of ?res) =
      (GenericInsert, ?tn, take C data) # map (\<lambda>rs. (BulkCopy, ?tn, rs)) (pieces C (drop C data))"
    using assms by (rule process_file_no_faults_transfers)
  have ch: "pieces C data = take C data # pieces C (drop C data)"
    using assms(1,3) by (rule pieces_step)
  have len: "length (pieces C data) = (length data + C - 1) div C"
    using assms(1) by (rule length_pieces)
  have l: "length (transfers (trace_of ?res)) = (length data + C - 1) div C"
    using len ch by (simp add: t)
  have "concat (pieces C data) = data"
    using assms(1) by (rule concat_pieces)
  then have c: "concat (map (\<lambda>t. snd (snd t)) (transfers (trace_of ?res))) = data"
    using ch by (simp add: t o_def)
  have "length (pieces C (drop C data)) = (length data + C - 1) div C - 1"
    using len ch by simp
  then have p: "map fst (transfers (trace_of ?res))
      = GenericInsert # replicate ((length data + C - 1) div C - 1) BulkCopy"
    by (simp add: t o_def map_replicate_const)
  from r d n l c p show ?thesis by blast
qed

theorem C1_rows_inserted_and_chunks_witness:
  "(0::nat) < 2
   \<and> flines \<lparr>fname = ''sales.csv'', flines = [''id,qty'', ''1,5'', ''2,7'', ''3,9'']\<rparr>
       = ''id,qty'' # [''1,5'', ''2,7'', ''3,9'']
   \<and> [''1,5'', ''2,7'', ''3,9''] \<noteq> []
   \<and> raised (process_file 2 no_faults
         \<lparr>fname = ''sales.csv'', flines = [''id,qty'', ''1,5'', ''2,7'', ''3,9'']\<rparr> Map.empty) = None
   \<and> length (transfers (trace_of (process_file 2 no_faults
         \<lparr>fname = ''sales.csv'', flines = [''id,qty'', ''1,5'', ''2,7'', ''3,9'']\<rparr> Map.empty)))
       = (length [''1,5'', ''2,7'', ''3,9''] + 2 - 1) div 2"
proof -
  have h1: "(0::nat) < 2" by simp
  have h2: "flines \<lparr>fname = ''sales.csv'', flines = [''id,qty'', ''1,5'', ''2,7'', ''3,9'']\<rparr>
       = ''id,qty'' # [''1,5'', ''2,7'', ''3,9'']" by simp
  have h3: "[''1,5'', ''2,7'', ''3,9''] \<noteq> []" by simp
  show ?thesis
    using h1 h2 h3 C1_rows_inserted_and_chunks [OF h1 h2 h3, of Map.empty] by blast
qed

subsection \<open>Existing rows are kept\<close>

lemma append_rows_keeps:
  "tb t = Some old \<Longrightarrow> \<exists>ext. append_rows tn rs tb t = Some (old @ ext)"
  by (auto simp: append_rows_def)

lemma upload_db_cases:
  "db_of (upload flt fl tn t reader tb) = tb
   \<or> (\<exists>rs. db_of (upload flt fl tn t reader tb) = append_rows tn rs tb)"
  by (auto simp: upload_def try_block_def handlers_def finally_block_def db_of_def Let_def
        append_rows_twice
      split: option.splits list.splits prod.splits exn.splits)

lemma process_file_db_cases:
  "db_of (process_file C flt f tb) = tb
   \<or> (\<exists>rs. db_of (process_file C flt f tb) = append_rows (table_name (fname f)) rs tb)"
proof (cases "flt CallOpen")
  case (Some m)
  then show ?thesis by (simp add: process_file_def db_of_def Let_def)
next
  case None
  show ?thesis
  proof (cases "read_csv flt C (flines f)")
    case (Inl e)
    with None show ?thesis by (simp add: process_file_def db_of_def Let_def)
  next
    case (Inr reader)
    have "db_of (process_file C flt f tb)
        = db_of (upload flt (fname f) (table_name (fname f)) (int (length (flines f)) - 1) reader tb)"
      using None Inr by (simp add: process_file_def db_of_def Let_def split: prod.splits)
    then show ?thesis
      using upload_db_cases [of flt "fname f" "table_name (fname f)" _ reader tb] by simp
  qed
qed

lemma process_file_keeps:
  "tb t = Some old \<Longrightarrow> \<exists>ext. db_of (process_file C flt f tb) t = Some (old @ ext)"
  using process_file_db_cases [of C flt f tb] append_rows_keeps [of tb t old]
  by auto

lemma process_files_keeps:
  "tb t = Some old \<Longrightarrow> \<exists>ext. db_of (process_files C env fs tb) t = Some (old @ ext)"
proof (induction fs arbitrary: tb old)
  case Nil
  then show ?case by (simp add: db_of_def)
next
  case (Cons f fs)
  obtain r tb1 ev where pf: "process_file C (env (fname f)) f tb = (r, tb1, ev)"
    by (cases "process_file C (env (fname f)) f tb") auto
  from process_file_keeps [of tb t old C "env (fname f)" f] Cons.prems pf
  obtain e1 where e1: "tb1 t = Some (old @ e1)" by (auto simp: db_of_def)
  show ?case
  proof (cases r)
    case (Some e)
    with pf e1 show ?thesis by (simp add: db_of_def)
  next
    case None
    from Cons.IH [of tb1 "old @ e1"] e1 obtain e2 where
      "db_of (process_files C env fs tb1) t = Some ((old @ e1) @ e2)" by blast
    with pf None show ?thesis by (auto simp: db_of_def split: prod.splits)
  qed
qed

lemma load_data_fast_keeps:
  "tb t = Some old \<Longrightarrow> \<exists>ext. db_of (load_data_fast dir env C tb) t = Some (old @ ext)"
  using process_files_keeps [of tb t old C env "csv_files dir"]
  by (auto simp: load_data_fast_def db_of_def Let_def split: prod.splits option.splits)

subsection \<open>A run in which nothing raises\<close>

lemma process_files_no_faults:
  assumes "0 < C" and "\<forall>f \<in> set fs. flines f \<noteq> []"
  shows "raised (process_files C (\<lambda>_. no_faults) fs tb) = None
       \<and> db_of (process_files C (\<lambda>_. no_faults) fs tb)
           = foldl (\<lambda>tb f. append_rows (table_name (fname f)) (tl (flines f)) tb) tb fs"
  using assms(2)
proof (induction fs arbitrary: tb)
  case Nil
  then show ?case by (simp add: raised_def db_of_def)
next
  case (Cons f fs)
  then obtain header data where fl: "flines f = header # data"
    by (cases "flines f") auto
  have r: "raised (process_file C no_faults f tb) = None"
    using assms(1) fl by (rule process_file_no_faults_db(1))
  have d: "db_of (process_file C no_faults f tb) = append_rows (table_name (fname f)) data tb"
    using assms(1) fl by (rule process_file_no_faults_db(2))
  have rest: "\<forall>f \<in> set fs. flines f \<noteq> []" using Cons.prems by simp
  note ih = Cons.IH [OF rest]
  show ?case
    using r d fl ih [of "append_rows (table_name (fname f)) data tb"]
    by (auto simp: raised_def db_of_def split: prod.splits option.splits)
qed

lemma rows_of_foldl_append_rows:
  "rows_of (foldl (\<lambda>tb f. append_rows (table_name (fname f)) (tl (flines f)) tb) tb fs) tn
     = rows_of tb tn
       @ concat (map (\<lambda>f. tl (flines f)) (filter (\<lambda>f. table_name (fname f) = tn) fs))"
  by (induction fs arbitrary: tb) (auto simp: rows_of_append_rows)

lemma load_data_fast_no_faults:
  assumes "0 < C" and "\<forall>f \<in> set (csv_files dir). flines f \<noteq> []"
  shows "raised (load_data_fast dir (\<lambda>_. no_faults) C tb) = None"
    and "rows_of (db_of (load_data_fast dir (\<lambda>_. no_faults) C tb)) tn
           = rows_of tb tn @ added_rows dir tn"
proof -
  note pf = process_files_no_faults [OF assms, of tb]
  show "raised (load_data_fast dir (\<lambda>_. no_faults) C tb) = None"
    using pf by (auto simp: load_data_fast_def raised_def Let_def split: prod.splits option.splits)
  have "db_of (load_data_fast dir (\<lambda>_. no_faults) C tb)
      = foldl (\<lambda>tb f. append_rows (table_name (fname f)) (tl (flines f)) tb) tb (csv_files dir)"
    using pf
    by (auto simp: load_data_fast_def raised_def db_of_def Let_def split: prod.splits option.splits)
  then show "rows_of (db_of (load_data_fast dir (\<lambda>_. no_faults) C tb)) tn
           = rows_of tb tn @ added_rows dir tn"
    by (simp add: rows_of_foldl_append_rows added_rows_def)
qed

text \<open>
  Claim C8. Running the ingestor twice over the same directory: whatever the environment
  does, every table that exists before a run still exists after it with its former rows as
  a prefix (nothing dropped, replaced or altered). When no call raises, the first run
  appends to every table the data rows of its files, and the second run appends the same
  rows once more.
\<close>

theorem C8_second_run_appends_second_copy:
  assumes "0 < C" and "\<forall>f \<in> set (csv_files dir). flines f \<noteq> []"
  shows "raised (run_twice dir (\<lambda>_. no_faults) C tb) = None
       \<and> rows_of (db_of (load_data_fast dir (\<lambda>_. no_faults) C tb)) tn
           = rows_of tb tn @ added_rows dir tn
       \<and> rows_of (db_of (run_twice dir (\<lambda>_. no_faults) C tb)) tn
           = rows_of tb tn @ added_rows dir tn @ added_rows dir tn
       \<and> (tb tn = Some old \<longrightarrow>
            (\<exists>ext. db_of (load_data_fast dir env C tb) tn = Some (old @ ext))
          \<and> (\<exists>ext. db_of (run_twice dir env C tb) tn = Some (old @ ext)))"
proof -
  have a: "raised (run_twice dir (\<lambda>_. no_faults) C tb) = None"
    unfolding run_twice_def using assms by (rule load_data_fast_no_faults(1))
  have b: "rows_of (db_of (load_data_fast dir (\<lambda>_. no_faults) C tb)) tn
           = rows_of tb tn @ added_rows dir tn"
    using assms by (rule load_data_fast_no_faults(2))
  have "rows_of (db_of (run_twice dir (\<lambda>_. no_faults) C tb)) tn
           = rows_of (db_of (load_data_fast dir (\<lambda>_. no_faults) C tb)) tn @ added_rows dir tn"
    unfolding run_twice_def using assms by (rule load_data_fast_no_faults(2))
  then have c: "rows_of (db_of (run_twice dir (\<lambda>_. no_faults) C tb)) tn
           = rows_of tb tn @ added_rows dir tn @ added_rows dir tn"
    using b by simp
  have d: "tb tn = Some old \<longrightarrow>
            (\<exists>ext. db_of (load_data_fast dir env C tb) tn = Some (old @ ext))
          \<and> (\<exists>ext. db_of (run_twice dir env C tb) tn = Some (old @ ext))"
  proof
    assume old: "tb tn = Some old"
    from load_data_fast_keeps [of tb tn old dir env C] old obtain e1 where
      e1: "db_of (load_data_fast dir env C tb) tn = Some (old @ e1)" by blast
    from load_data_fast_keeps [of "db_of (load_data_fast dir env C tb)" tn "old @ e1" dir env C] e1
    obtain e2 where
      "db_of (run_twice dir env C tb) tn = Some ((old @ e1) @ e2)"
      by (auto simp: run_twice_def)
    with e1 show "(\<exists>ext. db_of (load_data_fast dir env C tb) tn = Some (old @ ext))
          \<and> (\<exists>ext. db_of (run_twice dir env C tb) tn = Some (old @ ext))"
      by auto
  qed
  from a b c d show ?thesis by blast
qed


lemma example_csv_files:
  "csv_files [sales_csv, empty_csv] = [sales_csv, empty_csv]"
  by (simp add: csv_files_def endswith_def sales_csv_def empty_csv_def)

lemma example_lines_nonempty:
  "\<forall>f \<in> set (csv_files [sales_csv, empty_csv]). flines f \<noteq> []"
  by (simp add: example_csv_files) (simp add: sales_csv_def empty_csv_def)

theorem C8_second_run_appends_second_copy_witness:
  "(0::nat) < 2
   \<and> csv_files [sales_csv, empty_csv] = [sales_csv, empty_csv]
   \<and> old_db ''sales'' = Some [''0,0'']
   \<and> raised (run_twice [sales_csv, empty_csv] (\<lambda>_. no_faults) 2 old_db) = None
   \<and> rows_of (db_of (run_twice [sales_csv, empty_csv] (\<lambda>_. no_faults) 2 old_db)) ''sales''
       = rows_of old_db ''sales'' @ added_rows [sales_csv, empty_csv] ''sales''
           @ added_rows [sales_csv, empty_csv] ''sales''
   \<and> (\<exists>ext. db_of (run_twice [sales_csv, empty_csv] copy_fails 2 old_db) ''sales''
              = Some ([''0,0''] @ ext))"
proof -
  have h1: "(0::nat) < 2" by simp
  note h2 = example_lines_nonempty
  have h3: "old_db ''sales'' = Some [''0,0'']" by (simp add: old_db_def)
  from C8_second_run_appends_second_copy [OF h1 h2, of old_db "''sales''" "[''0,0'']" copy_fails] h3
  show ?thesis using h1 example_csv_files by blast
qed


subsection \<open>What leaves the loop and what does not\<close>

lemma copy_loop_member:
  "copy_loop flt fl tn k cs = (r, pend, ev) \<Longrightarrow> e \<in> set ev \<Longrightarrow> is_copy_event fl tn e"
  using copy_loop_events [of flt fl tn k cs r pend ev] by (simp add: list_all_iff)

lemma process_file_contained:
  assumes "0 < C" and "flines f \<noteq> []"
    and "flt CallOpen = None" and "flt CallReadCsv = None"
    and "flt CallRollback = None" and "flt CallClose = None"
  shows "raised (process_file C flt f tb) = None"
  using assms
  by (auto simp: process_file_def read_csv_def upload_def try_block_def handlers_def
        finally_block_def raised_def Let_def
      split: option.splits list.splits prod.splits exn.splits)

lemma process_file_starts:
  "PrintStarting (fname f) \<in> set (trace_of (process_file C flt f tb))"
  by (auto simp: process_file_def trace_of_def Let_def
      split: option.splits sum.splits prod.splits)

lemma process_files_step:
  "raised (process_file C (env (fname f)) f tb) = None \<Longrightarrow>
     raised (process_files C env (f # fs) tb)
       = raised (process_files C env fs (db_of (process_file C (env (fname f)) f tb)))
   \<and> db_of (process_files C env (f # fs) tb)
       = db_of (process_files C env fs (db_of (process_file C (env (fname f)) f tb)))
   \<and> trace_of (process_files C env (f # fs) tb)
       = trace_of (process_file C (env (fname f)) f tb)
         @ trace_of (process_files C env fs (db_of (process_file C (env (fname f)) f tb)))"
  by (auto simp: raised_def db_of_def trace_of_def split: prod.splits option.splits)

lemma process_files_prefix:
  "\<exists>rest. trace_of (process_files C env (f # fs) tb)
            = trace_of (process_file C (env (fname f)) f tb) @ rest"
  by (auto simp: trace_of_def split: prod.splits option.splits)

lemma process_files_contained:
  assumes "0 < C"
    and "\<forall>f \<in> set fs. flines f \<noteq> [] \<and> env (fname f) CallOpen = None
          \<and> env (fname f) CallReadCsv = None \<and> env (fname f) CallRollback = None
          \<and> env (fname f) CallClose = None"
  shows "raised (process_files C env fs tb) = None
       \<and> list_all (\<lambda>f. PrintStarting (fname f) \<in> set (trace_of (process_files C env fs tb))) fs"
  using assms(2)
proof (induction fs arbitrary: tb)
  case Nil
  then show ?case by (simp add: raised_def)
next
  case (Cons f fs)
  have r: "raised (process_file C (env (fname f)) f tb) = None"
    using assms(1) Cons.prems by (intro process_file_contained) simp_all
  have st: "raised (process_files C env (f # fs) tb)
       = raised (process_files C env fs (db_of (process_file C (env (fname f)) f tb)))
   \<and> db_of (process_files C env (f # fs) tb)
       = db_of (process_files C env fs (db_of (process_file C (env (fname f)) f tb)))
   \<and> trace_of (process_files C env (f # fs) tb)
       = trace_of (process_file C (env (fname f)) f tb)
         @ trace_of (process_files C env fs (db_of (process_file C (env (fname f)) f tb)))"
    using r by (rule process_files_step)
  have rest: "\<forall>f \<in> set fs. flines f \<noteq> [] \<and> env (fname f) CallOpen = None
          \<and> env (fname f) CallReadCsv = None \<and> env (fname f) CallRollback = None
          \<and> env (fname f) CallClose = None"
    using Cons.prems by simp
  note ih = Cons.IH [OF rest, of "db_of (process_file C (env (fname f)) f tb)"]
  have "PrintStarting (fname f) \<in> set (trace_of (process_files C env (f # fs) tb))"
    using st process_file_starts [of f C "env (fname f)" tb] by simp
  moreover have "list_all (\<lambda>g. PrintStarting (fname g)
      \<in> set (trace_of (process_files C env (f # fs) tb))) fs"
    using ih st by (simp add: list_all_iff)
  ultimately show ?case using ih st by simp
qed

text \<open>
  Claim C3, as the code has it. The \<open>try\<close> begins at line 62: the line count (line 53) and
  the construction of the reader (line 56) are before it, and the rollback and the close are
  in the handler and in the \<open>finally\<close>. Whatever raises inside the \<open>try\<close> (pulling a chunk,
  \<open>to_sql\<close>, opening the raw connection, \<open>copy_expert\<close>, \<open>commit\<close>) is contained: when the
  chunk size is positive, every file has at least a header line, and the line count, the
  reader construction, the rollback and the close return, the run ends without an
  exception, every file is started, and the run ends with the final summary.
\<close>

theorem C3_failures_inside_try_are_contained:
  assumes "0 < C"
    and "\<forall>f \<in> set (csv_files dir). flines f \<noteq> [] \<and> env (fname f) CallOpen = None
          \<and> env (fname f) CallReadCsv = None \<and> env (fname f) CallRollback = None
          \<and> env (fname f) CallClose = None"
  shows "raised (load_data_fast dir env C tb) = None
       \<and> list_all (\<lambda>f. PrintStarting (fname f) \<in> set (trace_of (load_data_fast dir env C tb)))
           (csv_files dir)
       \<and> (csv_files dir \<noteq> [] \<longrightarrow>
            (\<exists>pre. trace_of (load_data_fast dir env C tb)
                     = pre @ [LogInfoCompleted, PrintAllProcessed]))"
proof -
  note pf = process_files_contained [OF assms, of tb]
  obtain tb1 ev where res: "process_files C env (csv_files dir) tb = (None, tb1, ev)"
    using pf by (cases "process_files C env (csv_files dir) tb") (auto simp: raised_def)
  have a: "raised (load_data_fast dir env C tb) = None"
    using res by (simp add: load_data_fast_def raised_def Let_def)
  have b: "list_all (\<lambda>f. PrintStarting (fname f) \<in> set (trace_of (load_data_fast dir env C tb)))
           (csv_files dir)"
    using pf res by (auto simp: load_data_fast_def trace_of_def Let_def list_all_iff)
  have c: "csv_files dir \<noteq> [] \<longrightarrow>
            (\<exists>pre. trace_of (load_data_fast dir env C tb)
                     = pre @ [LogInfoCompleted, PrintAllProcessed])"
    using res by (auto simp: load_data_fast_def trace_of_def Let_def)
  from a b c show ?thesis by blast
qed

theorem C3_failures_inside_try_are_contained_witness:
  "(0::nat) < 2
   \<and> csv_files [sales_csv, empty_csv] = [sales_csv, empty_csv]
   \<and> insert_fails ''sales.csv'' CallToSql = Some ''insert failed''
   \<and> raised (load_data_fast [sales_csv, empty_csv] insert_fails 2 old_db) = None
   \<and> (\<exists>pre. trace_of (load_data_fast [sales_csv, empty_csv] insert_fails 2 old_db)
             = pre @ [LogInfoCompleted, PrintAllProcessed])"
proof -
  have h1: "(0::nat) < 2" by simp
  have h2: "\<forall>f \<in> set (csv_files [sales_csv, empty_csv]).
         flines f \<noteq> [] \<and> insert_fails (fname f) CallOpen = None
          \<and> insert_fails (fname f) CallReadCsv = None \<and> insert_fails (fname f) CallRollback = None
          \<and> insert_fails (fname f) CallClose = None"
    by (simp add: example_csv_files)
       (simp add: sales_csv_def empty_csv_def insert_fails_def no_faults_def)
  have h3: "csv_files [sales_csv, empty_csv] \<noteq> []"
    by (simp add: example_csv_files)
  have h4: "insert_fails ''sales.csv'' CallToSql = Some ''insert failed''"
    by (simp add: insert_fails_def)
  from C3_failures_inside_try_are_contained [OF h1 h2, of old_db] h3
  show ?thesis using h1 h4 example_csv_files by blast
qed

text \<open>
  The claim as stated fails: the line count of \<open>sales.csv\<close> raises (the file is not valid
  UTF-8, say). Line 53 is outside the \<open>try\<close>, so the exception leaves \<open>load_data_fast\<close>:
  \<open>empty.csv\<close> is never started and no final summary is printed.
\<close>

theorem C3_counterexample:
  "raised (load_data_fast [sales_csv, empty_csv] count_fails 2 old_db)
     = Some (Error ''UnicodeDecodeError'')
   \<and> PrintStarting ''empty.csv''
       \<notin> set (trace_of (load_data_fast [sales_csv, empty_csv] count_fails 2 old_db))
   \<and> PrintAllProcessed
       \<notin> set (trace_of (load_data_fast [sales_csv, empty_csv] count_fails 2 old_db))"
  by code_simp


subsection \<open>A failing bulk copy\<close>

lemma copy_loop_fault:
  assumes "k0 \<le> k" and "k < k0 + length cs" and "flt (CallCopy k) = Some m"
    and "\<forall>j. k0 \<le> j \<and> j \<le> k \<longrightarrow> flt (CallNext j) = None"
    and "\<forall>j. k0 \<le> j \<and> j < k \<longrightarrow> flt (CallCopy j) = None"
  shows "fst (copy_loop flt fl tn k0 cs) = Some (Error m)"
  using assms
proof (induction cs arbitrary: k0)
  case Nil
  then show ?case by simp
next
  case (Cons c cs)
  have nx: "flt (CallNext k0) = None" using Cons.prems by simp
  show ?case
  proof (cases "k = k0")
    case True
    with Cons.prems nx show ?thesis by simp
  next
    case False
    with Cons.prems have lt: "k0 < k" by simp
    then have cp: "flt (CallCopy k0) = None" using Cons.prems by simp
    have "fst (copy_loop flt fl tn (Suc k0) cs) = Some (Error m)"
      using Cons.prems lt by (intro Cons.IH) simp_all
    with nx cp show ?thesis by (auto split: prod.splits)
  qed
qed

lemma read_chunks_first: "0 < n \<Longrightarrow> \<exists>rest. read_chunks n data = take n data # rest"
  by (cases "data = []") (simp_all add: read_chunks_def pieces_step)

text \<open>
  Claim C2, as the code has it. The first chunk has been inserted, the raw connection is
  open, and \<open>copy_expert\<close> raises on chunk \<open>k\<close>: the error is logged, \<open>rollback\<close> is called
  and \<open>commit\<close> is not, and the committed table holds its former rows and the first chunk
  only, so no row of the bulk phase is visible. The iteration ends without an exception,
  and the loop goes on with the next file, provided the rollback and the close themselves
  return.
\<close>

theorem C2_bulk_copy_failure_rolls_back:
  assumes "0 < C" and "flines f = header # data"
    and "env (fname f) CallOpen = None" and "env (fname f) CallReadCsv = None"
    and "env (fname f) CallToSql = None" and "env (fname f) CallRawConnection = None"
    and "1 \<le> k" and "k < length (read_chunks C data)"
    and "env (fname f) (CallCopy k) = Some m"
    and "\<forall>j. j \<le> k \<longrightarrow> env (fname f) (CallNext j) = None"
    and "\<forall>j. 1 \<le> j \<and> j < k \<longrightarrow> env (fname f) (CallCopy j) = None"
  shows "LogErrorUploading (fname f) m \<in> set (trace_of (process_file C (env (fname f)) f tb))
       \<and> Rollback (fname f) \<in> set (trace_of (process_file C (env (fname f)) f tb))
       \<and> Commit (fname f) \<notin> set (trace_of (process_file C (env (fname f)) f tb))
       \<and> db_of (process_file C (env (fname f)) f tb)
           = append_rows (table_name (fname f)) (take C data) tb
       \<and> (env (fname f) CallRollback = None \<and> env (fname f) CallClose = None \<longrightarrow>
            raised (process_file C (env (fname f)) f tb) = None
          \<and> trace_of (process_files C env (f # fs) tb)
              = trace_of (process_file C (env (fname f)) f tb)
                @ trace_of (process_files C env fs
                    (append_rows (table_name (fname f)) (take C data) tb)))"
proof -
  let ?flt = "env (fname f)"
  let ?fl = "fname f"
  let ?tn = "table_name (fname f)"
  let ?res = "process_file C ?flt f tb"
  obtain rest where rc: "read_chunks C data = take C data # rest"
    using read_chunks_first [OF assms(1)] by blast
  let ?mk = "\<lambda>rs. \<lparr>columns = split_commas header, crows = rs\<rparr>"
  have rd: "read_csv ?flt C (flines f) = Inr (?mk (take C data) # map ?mk rest)"
    using assms(1,2,4) rc by (simp add: read_csv_def)
  have len: "k < 1 + length (map ?mk rest)" using assms(8) rc by simp
  have n0: "?flt (CallNext 0) = None" using assms(10) by simp
  have cl: "fst (copy_loop ?flt ?fl ?tn 1 (map ?mk rest)) = Some (Error m)"
    using assms(7) len assms(9)
  proof (rule copy_loop_fault)
    show "\<forall>j. 1 \<le> j \<and> j \<le> k \<longrightarrow> ?flt (CallNext j) = None" using assms(10) by simp
    show "\<forall>j. 1 \<le> j \<and> j < k \<longrightarrow> ?flt (CallCopy j) = None" using assms(11) by simp
  qed
  then obtain pend ev where cl': "copy_loop ?flt ?fl ?tn 1 (map ?mk rest) = (Some (Error m), pend, ev)"
    by (cases "copy_loop ?flt ?fl ?tn 1 (map ?mk rest)") auto
  have nev: "Commit ?fl \<notin> set ev"
    using copy_loop_member [OF cl', of "Commit ?fl"] by auto
  have res: "?res =
      (case finally_block ?flt ?fl True (map_option Error (?flt CallRollback)) of
         (r2, ev2) \<Rightarrow>
           (r2, append_rows ?tn (take C data) tb,
            [PrintStarting ?fl, PrintPreCounting ?fl, PrintFoundRows (int (length (flines f)) - 1),
             PbarOpen ?fl (int (length (flines f)) - 1),
             PrintInserting ?fl, ToSql ?tn (split_commas header) (take C data),
             PbarUpdate (length (take C data)), PrintFirstInserted, PrintSwitching,
             RawConnection ?fl]
            @ ev @ [LogErrorUploading ?fl m, Rollback ?fl] @ ev2))"
    using assms(3,5,6) n0 rd cl'
    by (simp add: process_file_def upload_def try_block_def handlers_def Let_def
          split: prod.splits)
  have fin: "finally_block ?flt ?fl True r = (r2, ev2) \<Longrightarrow> Commit ?fl \<notin> set ev2" for r r2 ev2
    by (auto simp: finally_block_def split: option.splits)
  have a: "LogErrorUploading ?fl m \<in> set (trace_of ?res)"
    by (simp add: res trace_of_def split: prod.splits)
  have b: "Rollback ?fl \<in> set (trace_of ?res)"
    by (simp add: res trace_of_def split: prod.splits)
  have c: "Commit ?fl \<notin> set (trace_of ?res)"
    using nev fin by (auto simp: res trace_of_def split: prod.splits)
  have d: "db_of ?res = append_rows ?tn (take C data) tb"
    by (simp add: res db_of_def split: prod.splits)
  have e: "?flt CallRollback = None \<and> ?flt CallClose = None \<longrightarrow>
            raised ?res = None
          \<and> trace_of (process_files C env (f # fs) tb)
              = trace_of ?res @ trace_of (process_files C env fs (append_rows ?tn (take C data) tb))"
  proof
    assume ok: "?flt CallRollback = None \<and> ?flt CallClose = None"
    then have r: "raised ?res = None"
      by (simp add: res raised_def finally_block_def)
    from process_files_step [of C env f tb fs] r d
    show "raised ?res = None
          \<and> trace_of (process_files C env (f # fs) tb)
              = trace_of ?res @ trace_of (process_files C env fs (append_rows ?tn (take C data) tb))"
      by simp
  qed
  from a b c d e show ?thesis by blast
qed


theorem C2_bulk_copy_failure_rolls_back_witness:
  "(0::nat) < 2
   \<and> flines sales_csv = ''id,qty'' # [''1,5'', ''2,7'', ''3,9'', ''4,2'', ''5,4'']
   \<and> copy_fails (fname sales_csv) CallOpen = None
   \<and> copy_fails (fname sales_csv) CallReadCsv = None
   \<and> copy_fails (fname sales_csv) CallToSql = None
   \<and> copy_fails (fname sales_csv) CallRawConnection = None
   \<and> (1::nat) \<le> 2
   \<and> 2 < length (read_chunks 2 [''1,5'', ''2,7'', ''3,9'', ''4,2'', ''5,4''])
   \<and> copy_fails (fname sales_csv) (CallCopy 2) = Some ''copy failed''
   \<and> copy_fails (fname sales_csv) (CallNext 0) = None
   \<and> copy_fails (fname sales_csv) (CallNext 1) = None
   \<and> copy_fails (fname sales_csv) (CallNext 2) = None
   \<and> copy_fails (fname sales_csv) (CallCopy 1) = None
   \<and> copy_fails (fname sales_csv) CallRollback = None
   \<and> copy_fails (fname sales_csv) CallClose = None
   \<and> Rollback (fname sales_csv)
       \<in> set (trace_of (process_file 2 (copy_fails (fname sales_csv)) sales_csv old_db))
   \<and> db_of (process_file 2 (copy_fails (fname sales_csv)) sales_csv old_db)
       = append_rows (table_name (fname sales_csv))
           (take 2 [''1,5'', ''2,7'', ''3,9'', ''4,2'', ''5,4'']) old_db
   \<and> raised (process_file 2 (copy_fails (fname sales_csv)) sales_csv old_db) = None
   \<and> trace_of (process_files 2 copy_fails [sales_csv, empty_csv] old_db)
       = trace_of (process_file 2 (copy_fails (fname sales_csv)) sales_csv old_db)
         @ trace_of (process_files 2 copy_fails [empty_csv]
             (append_rows (table_name (fname sales_csv))
               (take 2 [''1,5'', ''2,7'', ''3,9'', ''4,2'', ''5,4'']) old_db))"
proof -
  have h1: "(0::nat) < 2" by simp
  have h2: "flines sales_csv = ''id,qty'' # [''1,5'', ''2,7'', ''3,9'', ''4,2'', ''5,4'']"
    by (simp add: sales_csv_def)
  have h3: "copy_fails (fname sales_csv) CallOpen = None"
    by (simp add: copy_fails_def sales_csv_def no_faults_def)
  have h4: "copy_fails (fname sales_csv) CallReadCsv = None"
    by (simp add: copy_fails_def sales_csv_def no_faults_def)
  have h5: "copy_fails (fname sales_csv) CallToSql = None"
    by (simp add: copy_fails_def sales_csv_def no_faults_def)
  have h6: "copy_fails (fname sales_csv) CallRawConnection = None"
    by (simp add: copy_fails_def sales_csv_def no_faults_def)
  have h7: "(1::nat) \<le> 2" by simp
  have h8: "2 < length (read_chunks 2 [''1,5'', ''2,7'', ''3,9'', ''4,2'', ''5,4''])"
    by code_simp
  have h9: "copy_fails (fname sales_csv) (CallCopy 2) = Some ''copy failed''"
    by (simp add: copy_fails_def sales_csv_def)
  have h10: "\<forall>j. j \<le> 2 \<longrightarrow> copy_fails (fname sales_csv) (CallNext j) = None"
    by (simp add: copy_fails_def sales_csv_def no_faults_def)
  have h11: "\<forall>j. 1 \<le> j \<and> j < 2 \<longrightarrow> copy_fails (fname sales_csv) (CallCopy j) = None"
    by (auto simp: copy_fails_def sales_csv_def no_faults_def)
  have h12: "copy_fails (fname sales_csv) CallRollback = None"
    by (simp add: copy_fails_def sales_csv_def no_faults_def)
  have h13: "copy_fails (fname sales_csv) CallClose = None"
    by (simp add: copy_fails_def sales_csv_def no_faults_def)
  from C2_bulk_copy_failure_rolls_back [where env = copy_fails and f = sales_csv
      and tb = old_db and fs = "[empty_csv]", OF h1 h2 h3 h4 h5 h6 h7 h8 h9 h10 h11] h12 h13
  show ?thesis using h1 h2 h3 h4 h5 h6 h7 h8 h9 h10 h11 by simp
qed

text \<open>
  The claim as stated fails: \<open>copy_expert\<close> raises on the third chunk of \<open>sales.csv\<close> and the
  \<open>rollback\<close> in the handler raises in its turn (a lost connection does both). The second
  exception is not inside any \<open>try\<close>: it leaves \<open>load_data_fast\<close> after the \<open>finally\<close>, and
  \<open>empty.csv\<close> is never started.
\<close>

theorem C2_counterexample:
  "LogErrorUploading ''sales.csv'' ''copy failed''
       \<in> set (trace_of (load_data_fast [sales_csv, empty_csv] copy_and_rollback_fail 2 old_db))
   \<and> raised (load_data_fast [sales_csv, empty_csv] copy_and_rollback_fail 2 old_db)
       = Some (Error ''rollback failed'')
   \<and> PrintStarting ''empty.csv''
       \<notin> set (trace_of (load_data_fast [sales_csv, empty_csv] copy_and_rollback_fail 2 old_db))"
  by code_simp


subsection \<open>The first chunk and the raw connection\<close>

text \<open>
  Claim C9. The first chunk of a file has been inserted through the engine and an error
  is logged afterwards for that file (opening the raw connection, parsing or copying a later
  chunk, or the commit raised): the committed table holds its former rows followed by the
  rows of the first chunk, so it exists and the first chunk stays; no later chunk is
  there; and when the raw connection had been opened, the rollback is called on it.
\<close>

theorem C9_first_chunk_survives_bulk_failure:
  assumes "0 < C" and "flines f = header # data"
    and "flt CallOpen = None" and "flt CallReadCsv = None"
    and "flt (CallNext 0) = None" and "flt CallToSql = None"
    and "LogErrorUploading (fname f) m \<in> set (trace_of (process_file C flt f tb))"
  shows "db_of (process_file C flt f tb) = append_rows (table_name (fname f)) (take C data) tb
       \<and> rows_of (db_of (process_file C flt f tb)) (table_name (fname f))
           = rows_of tb (table_name (fname f)) @ take C data
       \<and> db_of (process_file C flt f tb) (table_name (fname f)) \<noteq> None
       \<and> (flt CallRawConnection = None \<longrightarrow>
            Rollback (fname f) \<in> set (trace_of (process_file C flt f tb)))"
proof -
  let ?fl = "fname f"
  let ?tn = "table_name (fname f)"
  let ?res = "process_file C flt f tb"
  obtain rest where rc: "read_chunks C data = take C data # rest"
    using read_chunks_first [OF assms(1)] by blast
  let ?mk = "\<lambda>rs. \<lparr>columns = split_commas header, crows = rs\<rparr>"
  have rd: "read_csv flt C (flines f) = Inr (?mk (take C data) # map ?mk rest)"
    using assms(1,2,4) rc by (simp add: read_csv_def)
  obtain r pend ev where cl: "copy_loop flt ?fl ?tn 1 (map ?mk rest) = (r, pend, ev)"
    by (cases "copy_loop flt ?fl ?tn 1 (map ?mk rest)") auto
  have nev: "LogErrorUploading ?fl m \<notin> set ev"
    using copy_loop_member [OF cl, of "LogErrorUploading ?fl m"] by auto
  have ns: "r \<noteq> Some StopIteration"
    using cl by (rule copy_loop_not_stop)
  have d: "db_of ?res = append_rows ?tn (take C data) tb"
    using assms(3,5,6,7) rd cl nev ns
    by (auto simp: process_file_def upload_def try_block_def handlers_def finally_block_def
          trace_of_def db_of_def Let_def
        split: option.splits prod.splits exn.splits if_splits)
  have rb: "flt CallRawConnection = None \<longrightarrow> Rollback ?fl \<in> set (trace_of ?res)"
    using assms(3,5,6,7) rd cl nev ns
    by (auto simp: process_file_def upload_def try_block_def handlers_def finally_block_def
          trace_of_def Let_def
        split: option.splits prod.splits exn.splits if_splits)
  have rows: "rows_of (db_of ?res) ?tn = rows_of tb ?tn @ take C data"
    by (simp add: d rows_of_append_rows)
  have ex: "db_of ?res ?tn \<noteq> None"
    by (simp add: d append_rows_def)
  from d rows ex rb show ?thesis by blast
qed

theorem C9_first_chunk_survives_bulk_failure_witness:
  "(0::nat) < 2
   \<and> flines sales_csv = ''id,qty'' # [''1,5'', ''2,7'', ''3,9'', ''4,2'', ''5,4'']
   \<and> copy_fails ''sales.csv'' CallOpen = None
   \<and> copy_fails ''sales.csv'' CallReadCsv = None
   \<and> copy_fails ''sales.csv'' (CallNext 0) = None
   \<and> copy_fails ''sales.csv'' CallToSql = None
   \<and> LogErrorUploading (fname sales_csv) ''copy failed''
       \<in> set (trace_of (process_file 2 (copy_fails ''sales.csv'') sales_csv Map.empty))
   \<and> copy_fails ''sales.csv'' CallRawConnection = None
   \<and> rows_of (db_of (process_file 2 (copy_fails ''sales.csv'') sales_csv Map.empty))
         (table_name (fname sales_csv))
       = rows_of Map.empty (table_name (fname sales_csv))
         @ take 2 [''1,5'', ''2,7'', ''3,9'', ''4,2'', ''5,4'']
   \<and> db_of (process_file 2 (copy_fails ''sales.csv'') sales_csv Map.empty)
         (table_name (fname sales_csv)) \<noteq> None
   \<and> Rollback (fname sales_csv)
       \<in> set (trace_of (process_file 2 (copy_fails ''sales.csv'') sales_csv Map.empty))"
proof -
  have h1: "(0::nat) < 2" by simp
  have h2: "flines sales_csv = ''id,qty'' # [''1,5'', ''2,7'', ''3,9'', ''4,2'', ''5,4'']"
    by (simp add: sales_csv_def)
  have h3: "copy_fails ''sales.csv'' CallOpen = None"
    by (simp add: copy_fails_def no_faults_def)
  have h4: "copy_fails ''sales.csv'' CallReadCsv = None"
    by (simp add: copy_fails_def no_faults_def)
  have h5: "copy_fails ''sales.csv'' (CallNext 0) = None"
    by (simp add: copy_fails_def no_faults_def)
  have h6: "copy_fails ''sales.csv'' CallToSql = None"
    by (simp add: copy_fails_def no_faults_def)
  have h7: "LogErrorUploading (fname sales_csv) ''copy failed''
       \<in> set (trace_of (process_file 2 (copy_fails ''sales.csv'') sales_csv Map.empty))"
    by code_simp
  have h8: "copy_fails ''sales.csv'' CallRawConnection = None"
    by (simp add: copy_fails_def no_faults_def)
  from C9_first_chunk_survives_bulk_failure [where flt = "copy_fails ''sales.csv''"
      and f = sales_csv and tb = Map.empty, OF h1 h2 h3 h4 h5 h6 h7] h8
  show ?thesis using h1 h2 h3 h4 h5 h6 h7 by blast
qed

subsection \<open>The raw connection is closed once\<close>

lemma copy_loop_no_conn_event:
  "copy_loop flt fl tn k cs = (r, pend, ev) \<Longrightarrow>
     Close x \<notin> set ev \<and> RawConnection x \<notin> set ev"
  using copy_loop_member [of flt fl tn k cs r pend ev] by fastforce

lemma try_block_conn:
  "try_block flt fl tn reader tb = (r, rc, tb1, ev) \<Longrightarrow>
     rc = (RawConnection fl \<in> set ev \<and> flt CallRawConnection = None)"
  by (auto simp: try_block_def Let_def
      split: option.splits list.splits prod.splits
      dest: copy_loop_no_conn_event)

lemma handlers_no_conn_event:
  "handlers flt fl rc r = (r1, ev1) \<Longrightarrow> RawConnection x \<notin> set ev1 \<and> Close x \<notin> set ev1"
  by (auto simp: handlers_def split: option.splits exn.splits if_splits)

lemma upload_shape:
  "\<exists>r rc tb1 ev r1 ev1 r2 ev2.
     try_block flt fl tn reader tb = (r, rc, tb1, ev)
     \<and> handlers flt fl rc r = (r1, ev1)
     \<and> finally_block flt fl rc r1 = (r2, ev2)
     \<and> upload flt fl tn t reader tb = (r2, tb1, PbarOpen fl t # ev @ ev1 @ ev2)"
  by (auto simp: upload_def split: prod.splits)

lemma upload_close_last:
  assumes "RawConnection fl \<in> set (trace_of (upload flt fl tn t reader tb))"
    and "flt CallRawConnection = None"
  shows "\<exists>pre post. trace_of (upload flt fl tn t reader tb) = pre @ Close fl # post
            \<and> RawConnection fl \<in> set pre
            \<and> (post = [] \<or> post = [PrintClosed fl])"
proof -
  obtain r rc tb1 ev r1 ev1 r2 ev2 where
    tb: "try_block flt fl tn reader tb = (r, rc, tb1, ev)"
    and hs: "handlers flt fl rc r = (r1, ev1)"
    and fb: "finally_block flt fl rc r1 = (r2, ev2)"
    and up: "upload flt fl tn t reader tb = (r2, tb1, PbarOpen fl t # ev @ ev1 @ ev2)"
    using upload_shape [of flt fl tn reader tb t] by blast
  have rc_eq: "rc = (RawConnection fl \<in> set ev \<and> flt CallRawConnection = None)"
    using tb by (rule try_block_conn)
  have h1: "RawConnection fl \<notin> set ev1"
    using handlers_no_conn_event [OF hs] by simp
  have h2: "RawConnection fl \<notin> set ev2"
    using fb by (auto simp: finally_block_def split: if_splits option.splits)
  have "RawConnection fl \<in> set ev"
    using assms(1) h1 h2 by (simp add: up trace_of_def)
  with rc_eq assms(2) have rc by simp
  then have "ev2 = [Close fl] \<or> ev2 = [Close fl, PrintClosed fl]"
    using fb by (auto simp: finally_block_def split: option.splits)
  then obtain post where ev2: "ev2 = Close fl # post" and post: "post = [] \<or> post = [PrintClosed fl]"
    by auto
  have "trace_of (upload flt fl tn t reader tb) = (PbarOpen fl t # ev @ ev1) @ Close fl # post"
    by (simp add: up trace_of_def ev2)
  moreover have "RawConnection fl \<in> set (PbarOpen fl t # ev @ ev1)"
    using \<open>RawConnection fl \<in> set ev\<close> by simp
  ultimately show ?thesis using post by blast
qed

lemma process_file_trace_cases:
  "trace_of (process_file C flt f tb) = [PrintStarting (fname f), PrintPreCounting (fname f)]
   \<or> trace_of (process_file C flt f tb)
       = [PrintStarting (fname f), PrintPreCounting (fname f),
          PrintFoundRows (int (length (flines f)) - 1)]
   \<or> (\<exists>reader. read_csv flt C (flines f) = Inr reader \<and> flt CallOpen = None
        \<and> raised (process_file C flt f tb)
            = raised (upload flt (fname f) (table_name (fname f))
                (int (length (flines f)) - 1) reader tb)
        \<and> db_of (process_file C flt f tb)
            = db_of (upload flt (fname f) (table_name (fname f))
                (int (length (flines f)) - 1) reader tb)
        \<and> trace_of (process_file C flt f tb)
            = [PrintStarting (fname f), PrintPreCounting (fname f),
               PrintFoundRows (int (length (flines f)) - 1)]
              @ trace_of (upload flt (fname f) (table_name (fname f))
                  (int (length (flines f)) - 1) reader tb))"
  by (auto simp: process_file_def trace_of_def raised_def db_of_def Let_def
      split: option.splits sum.splits prod.splits)

text \<open>
  Claim C6. In the iteration of any file, whatever raises: when the raw connection was
  opened (the call at line 75 was reached and returned), \<open>close\<close> is called on it exactly
  once, after the open, as the last database call of the iteration, followed at most by the
  print of line 102; when it was not opened, \<open>close\<close> is not called. No other connection is
  closed. The events of the following files come after those of this iteration.
\<close>

theorem C6_raw_connection_closed_once:
  "count_list (trace_of (process_file C (env (fname f)) f tb)) (Close (fname f))
     = (if RawConnection (fname f) \<in> set (trace_of (process_file C (env (fname f)) f tb))
           \<and> env (fname f) CallRawConnection = None
        then 1 else 0)
   \<and> (RawConnection (fname f) \<in> set (trace_of (process_file C (env (fname f)) f tb))
        \<and> env (fname f) CallRawConnection = None \<longrightarrow>
        (\<exists>pre post. trace_of (process_file C (env (fname f)) f tb) = pre @ Close (fname f) # post
            \<and> RawConnection (fname f) \<in> set pre
            \<and> (post = [] \<or> post = [PrintClosed (fname f)])))
   \<and> (x \<noteq> fname f \<longrightarrow> Close x \<notin> set (trace_of (process_file C (env (fname f)) f tb)))
   \<and> (\<exists>rest. trace_of (process_files C env (f # fs) tb)
                = trace_of (process_file C (env (fname f)) f tb) @ rest)"
proof -
  let ?flt = "env (fname f)"
  let ?fl = "fname f"
  let ?tr = "trace_of (process_file C ?flt f tb)"
  have a: "count_list ?tr (Close ?fl)
     = (if RawConnection ?fl \<in> set ?tr \<and> ?flt CallRawConnection = None then 1 else 0)"
    by (auto simp: process_file_def upload_def try_block_def handlers_def finally_block_def
          trace_of_def Let_def
        split: option.splits list.splits prod.splits exn.splits sum.splits
        dest: copy_loop_count_Close copy_loop_not_stop copy_loop_no_conn_event)
  have c: "x \<noteq> ?fl \<longrightarrow> Close x \<notin> set ?tr"
    by (auto simp: process_file_def upload_def try_block_def handlers_def finally_block_def
          trace_of_def Let_def
        split: option.splits list.splits prod.splits exn.splits sum.splits
        dest: copy_loop_no_conn_event)
  have b: "RawConnection ?fl \<in> set ?tr \<and> ?flt CallRawConnection = None \<longrightarrow>
        (\<exists>pre post. ?tr = pre @ Close ?fl # post \<and> RawConnection ?fl \<in> set pre
            \<and> (post = [] \<or> post = [PrintClosed ?fl]))"
  proof
    assume op: "RawConnection ?fl \<in> set ?tr \<and> ?flt CallRawConnection = None"
    from process_file_trace_cases [of C ?flt f tb] op
    obtain reader where
      tr: "?tr = [PrintStarting ?fl, PrintPreCounting ?fl,
                  PrintFoundRows (int (length (flines f)) - 1)]
                 @ trace_of (upload ?flt ?fl (table_name ?fl)
                     (int (length (flines f)) - 1) reader tb)"
      by auto
    let ?up = "trace_of (upload ?flt ?fl (table_name ?fl) (int (length (flines f)) - 1) reader tb)"
    have inup: "RawConnection ?fl \<in> set ?up" using op tr by simp
    have nofault: "?flt CallRawConnection = None" using op by simp
    from upload_close_last [OF inup nofault]
    obtain pre post where pp: "?up = pre @ Close ?fl # post" "RawConnection ?fl \<in> set pre"
        "post = [] \<or> post = [PrintClosed ?fl]"
      by blast
    have "?tr = ([PrintStarting ?fl, PrintPreCounting ?fl,
                  PrintFoundRows (int (length (flines f)) - 1)] @ pre) @ Close ?fl # post"
      using tr pp(1) by simp
    moreover have "RawConnection ?fl \<in> set ([PrintStarting ?fl, PrintPreCounting ?fl,
                  PrintFoundRows (int (length (flines f)) - 1)] @ pre)"
      using pp(2) by simp
    ultimately show "\<exists>pre post. ?tr = pre @ Close ?fl # post \<and> RawConnection ?fl \<in> set pre
            \<and> (post = [] \<or> post = [PrintClosed ?fl])"
      using pp(3) by blast
  qed
  note d = process_files_prefix [of C env f fs tb]
  from a b c d show ?thesis by blast
qed


theorem C6_raw_connection_closed_once_witness:
  "RawConnection (fname sales_csv)
       \<in> set (trace_of (process_file 2 (copy_fails (fname sales_csv)) sales_csv old_db))
   \<and> copy_fails (fname sales_csv) CallRawConnection = None
   \<and> ''empty.csv'' \<noteq> fname sales_csv
   \<and> count_list (trace_of (process_file 2 (copy_fails (fname sales_csv)) sales_csv old_db))
         (Close (fname sales_csv)) = 1
   \<and> (\<exists>pre post. trace_of (process_file 2 (copy_fails (fname sales_csv)) sales_csv old_db)
            = pre @ Close (fname sales_csv) # post
          \<and> RawConnection (fname sales_csv) \<in> set pre
          \<and> (post = [] \<or> post = [PrintClosed (fname sales_csv)]))
   \<and> Close ''empty.csv''
       \<notin> set (trace_of (process_file 2 (copy_fails (fname sales_csv)) sales_csv old_db))"
proof -
  have h1: "RawConnection (fname sales_csv)
       \<in> set (trace_of (process_file 2 (copy_fails (fname sales_csv)) sales_csv old_db))"
    by code_simp
  have h2: "copy_fails (fname sales_csv) CallRawConnection = None"
    by (simp add: copy_fails_def sales_csv_def no_faults_def)
  have h3: "''empty.csv'' \<noteq> fname sales_csv"
    by (simp add: sales_csv_def)
  from C6_raw_connection_closed_once [where env = copy_fails and f = sales_csv and C = 2
      and tb = old_db and x = "''empty.csv''" and fs = "[]"] h1 h2 h3
  show ?thesis by auto
qed

subsection \<open>The pre-count\<close>





subsection \<open>The table name\<close>

lemma rfind_append:
  "rfind c (xs @ ys) =
     (case rfind c ys of Some i \<Rightarrow> Some (length xs + i) | None \<Rightarrow> rfind c xs)"
  by (induction xs) (auto split: option.splits)

lemma splitext_csv:
  "splitext (s @ ''.csv'') =
     (if list_ex (\<lambda>c. c \<noteq> CHR ''.'') s then (s, ''.csv'') else (s @ ''.csv'', []))"
  by (simp add: splitext_def rfind_append)

lemma endswith_csv:
  assumes "endswith name ''.csv''"
  shows "name = take (length name - 4) name @ ''.csv''"
proof -
  have d: "drop (length name - 4) name = ''.csv''"
    using assms by (simp add: endswith_def eval_nat_numeral)
  have "take (length name - 4) name @ drop (length name - 4) name = name"
    by (rule append_take_drop_id)
  then have "take (length name - 4) name @ ''.csv'' = name"
    unfolding d .
  then show ?thesis by (rule sym)
qed

lemma upload_transfers_target:
  "list_all (\<lambda>t. fst (snd t) = tn) (transfers (trace_of (upload flt fl tn n reader tb)))"
proof -
  have cl: "copy_loop flt fl tn k cs = (r, pend, ev) \<Longrightarrow>
      list_all (\<lambda>t. fst (snd t) = tn) (transfers ev)" for k cs r pend ev
    by (induction cs arbitrary: k r pend ev) (auto split: option.splits prod.splits)
  show ?thesis
    by (auto simp: upload_def try_block_def handlers_def finally_block_def trace_of_def Let_def
        split: option.splits list.splits prod.splits exn.splits
        dest: cl)
qed

lemma is_upper_code:
  "is_upper c = ((65 \<le> (of_char c :: nat) \<and> (of_char c :: nat) \<le> 90)
      \<or> (192 \<le> (of_char c :: nat) \<and> (of_char c :: nat) \<le> 222 \<and> (of_char c :: nat) \<noteq> 215))"
proof -
  have eq: "(c = d) = ((of_char c :: nat) = of_char d)" for d
    by simp
  have "c \<in> set ''ABCDEFGHIJKLMNOPQRSTUVWXYZ''
      = (65 \<le> (of_char c :: nat) \<and> (of_char c :: nat) \<le> 90)"
    by (simp add: eq) arith
  then show ?thesis
    by (simp only: is_upper_def) arith
qed

lemma lower_char_not_upper: "\<not> is_upper (lower_char c)"
proof -
  have lt: "(of_char c :: nat) < 256" by simp
  show ?thesis
    using lt by (auto simp: is_upper_code lower_char_def Let_def)
qed

lemma lower_char_lowered: "lowered c (lower_char c)"
proof -
  have lt: "(of_char c :: nat) < 256" by simp
  show ?thesis
    using lt by (auto simp: lowered_def is_upper_code lower_char_def Let_def)
qed

lemma lower_not_upper: "list_all (\<lambda>c. \<not> is_upper c) (lower s)"
  by (simp add: lower_def list_all_iff lower_char_not_upper)

lemma lower_lowered: "list_all2 lowered s (lower s)"
  by (induction s) (simp_all add: lower_def lower_char_lowered)

text \<open>
  Claim C5. For a file whose name ends in \<open>.csv\<close> the table name is the lower-cased stem.
  The stem is the name without its last four characters when these are an extension, that
  is when some character before the last dot is not a dot; a name made of dots before \<open>csv\<close>
  (\<open>.csv\<close>, \<open>..csv\<close>) has no extension for \<open>os.path.splitext\<close> and is its own stem.
  Lower-cased: the table name has the length of the stem, holds no upper-case letter, and
  differs from the stem exactly where the stem has an upper-case letter, which is replaced
  by its lower-case letter. Every chunk the iteration sends is sent to that table. The name
  is computed from the file name alone.
\<close>

theorem C5_table_name_is_lowercased_stem:
  assumes "endswith (fname f) ''.csv''"
  shows "table_name (fname f)
           = lower (if list_ex (\<lambda>c. c \<noteq> CHR ''.'') (take (length (fname f) - 4) (fname f))
                    then take (length (fname f) - 4) (fname f)
                    else fname f)
       \<and> list_all2 lowered
            (if list_ex (\<lambda>c. c \<noteq> CHR ''.'') (take (length (fname f) - 4) (fname f))
             then take (length (fname f) - 4) (fname f)
             else fname f)
            (table_name (fname f))
       \<and> list_all (\<lambda>c. \<not> is_upper c) (table_name (fname f))
       \<and> list_all (\<lambda>t. fst (snd t) = table_name (fname f))
           (transfers (trace_of (process_file C flt f tb)))"
proof -
  define s where "s = take (length (fname f) - 4) (fname f)"
  have nm: "fname f = s @ ''.csv''"
    unfolding s_def using assms by (rule endswith_csv)
  have "table_name (fname f) = lower (fst (splitext (s @ ''.csv'')))"
    by (simp only: table_name_def nm [symmetric])
  also have "\<dots> = lower (if list_ex (\<lambda>c. c \<noteq> CHR ''.'') s then s else s @ ''.csv'')"
    by (simp add: splitext_csv)
  also have "\<dots> = lower (if list_ex (\<lambda>c. c \<noteq> CHR ''.'') s then s else fname f)"
    by (simp only: nm [symmetric])
  finally have a: "table_name (fname f)
           = lower (if list_ex (\<lambda>c. c \<noteq> CHR ''.'') (take (length (fname f) - 4) (fname f))
                    then take (length (fname f) - 4) (fname f)
                    else fname f)"
    unfolding s_def .
  have l2: "list_all2 lowered
            (if list_ex (\<lambda>c. c \<noteq> CHR ''.'') (take (length (fname f) - 4) (fname f))
             then take (length (fname f) - 4) (fname f)
             else fname f)
            (table_name (fname f))"
    by (subst a) (rule lower_lowered)
  have nu: "list_all (\<lambda>c. \<not> is_upper c) (table_name (fname f))"
    by (subst a) (rule lower_not_upper)
  let ?tr = "trace_of (process_file C flt f tb)"
  let ?n = "int (length (flines f)) - 1"
  have b: "list_all (\<lambda>t. fst (snd t) = table_name (fname f)) (transfers ?tr)"
  proof -
    consider "?tr = [PrintStarting (fname f), PrintPreCounting (fname f)]"
      | "?tr = [PrintStarting (fname f), PrintPreCounting (fname f), PrintFoundRows ?n]"
      | reader where "?tr = [PrintStarting (fname f), PrintPreCounting (fname f), PrintFoundRows ?n]
              @ trace_of (upload flt (fname f) (table_name (fname f)) ?n reader tb)"
      using process_file_trace_cases [of C flt f tb] by blast
    then show ?thesis
    proof cases
      case 1
      then show ?thesis by simp
    next
      case 2
      then show ?thesis by simp
    next
      case 3
      then show ?thesis
        using upload_transfers_target [of "table_name (fname f)" flt "fname f" ?n reader tb]
        by simp
    qed
  qed
  from a l2 nu b show ?thesis by blast
qed

theorem C5_table_name_is_lowercased_stem_witness:
  "endswith (fname report_csv) ''.csv''
   \<and> fname report_csv = [CHR 0xC9, CHR ''t'', CHR 0xC9, CHR ''_'', CHR ''Q'', CHR ''1''] @ ''.csv''
   \<and> table_name (fname report_csv) = [CHR 0xE9, CHR ''t'', CHR 0xE9, CHR ''_'', CHR ''q'', CHR ''1'']
   \<and> list_all2 lowered [CHR 0xC9, CHR ''t'', CHR 0xC9, CHR ''_'', CHR ''Q'', CHR ''1'']
         (table_name (fname report_csv))
   \<and> transfers (trace_of (process_file 2 no_faults report_csv Map.empty))
       = [(GenericInsert, table_name (fname report_csv), [''1,5'', ''2,7'']),
          (BulkCopy, table_name (fname report_csv), [''3,9''])]
   \<and> list_all (\<lambda>t. fst (snd t) = table_name (fname report_csv))
         (transfers (trace_of (process_file 2 no_faults report_csv Map.empty)))"
proof -
  have h1: "endswith (fname report_csv) ''.csv''"
    by code_simp
  have n: "fname report_csv = [CHR 0xC9, CHR ''t'', CHR 0xC9, CHR ''_'', CHR ''Q'', CHR ''1''] @ ''.csv''"
    by (simp add: report_csv_def)
  have e: "(if list_ex (\<lambda>c. c \<noteq> CHR ''.'') (take (length (fname report_csv) - 4) (fname report_csv))
            then take (length (fname report_csv) - 4) (fname report_csv)
            else fname report_csv)
           = [CHR 0xC9, CHR ''t'', CHR 0xC9, CHR ''_'', CHR ''Q'', CHR ''1'']"
    by code_simp
  have l: "lower [CHR 0xC9, CHR ''t'', CHR 0xC9, CHR ''_'', CHR ''Q'', CHR ''1'']
           = [CHR 0xE9, CHR ''t'', CHR 0xE9, CHR ''_'', CHR ''q'', CHR ''1'']"
    by code_simp
  have t: "transfers (trace_of (process_file 2 no_faults report_csv Map.empty))
       = [(GenericInsert, table_name (fname report_csv), [''1,5'', ''2,7'']),
          (BulkCopy, table_name (fname report_csv), [''3,9''])]"
    by code_simp
  note c = C5_table_name_is_lowercased_stem [OF h1, of 2 no_faults Map.empty]
  from c have c1: "table_name (fname report_csv)
      = lower (if list_ex (\<lambda>c. c \<noteq> CHR ''.'') (take (length (fname report_csv) - 4) (fname report_csv))
               then take (length (fname report_csv) - 4) (fname report_csv)
               else fname report_csv)"
    by blast
  from c have c2: "list_all2 lowered
        (if list_ex (\<lambda>c. c \<noteq> CHR ''.'') (take (length (fname report_csv) - 4) (fname report_csv))
         then take (length (fname report_csv) - 4) (fname report_csv)
         else fname report_csv)
        (table_name (fname report_csv))"
    by blast
  from c have c3: "list_all (\<lambda>t. fst (snd t) = table_name (fname report_csv))
         (transfers (trace_of (process_file 2 no_faults report_csv Map.empty)))"
    by blast
  have tn: "table_name (fname report_csv) = [CHR 0xE9, CHR ''t'', CHR 0xE9, CHR ''_'', CHR ''q'', CHR ''1'']"
    using c1 by (simp only: e l)
  have l2: "list_all2 lowered [CHR 0xC9, CHR ''t'', CHR 0xC9, CHR ''_'', CHR ''Q'', CHR ''1'']
         (table_name (fname report_csv))"
    using c2 by (simp only: e)
  from h1 n tn l2 t c3 show ?thesis by blast
qed

subsection \<open>Files without data rows\<close>

lemma read_csv_nonempty: "read_csv flt C ls = Inr reader \<Longrightarrow> reader \<noteq> []"
  by (auto simp: read_csv_def read_chunks_nonempty
      split: if_splits option.splits list.splits)

lemma upload_no_warning:
  "reader \<noteq> [] \<Longrightarrow> LogWarningSkipped x \<notin> set (trace_of (upload flt fl tn n reader tb))"
  by (auto simp: upload_def try_block_def handlers_def finally_block_def trace_of_def Let_def
      split: option.splits list.splits prod.splits exn.splits
      dest: copy_loop_member copy_loop_not_stop)

lemma process_file_no_warning:
  "LogWarningSkipped x \<notin> set (trace_of (process_file C flt f tb))"
proof -
  let ?tr = "trace_of (process_file C flt f tb)"
  let ?n = "int (length (flines f)) - 1"
  consider "?tr = [PrintStarting (fname f), PrintPreCounting (fname f)]"
    | "?tr = [PrintStarting (fname f), PrintPreCounting (fname f), PrintFoundRows ?n]"
    | reader where "read_csv flt C (flines f) = Inr reader"
        and "?tr = [PrintStarting (fname f), PrintPreCounting (fname f), PrintFoundRows ?n]
              @ trace_of (upload flt (fname f) (table_name (fname f)) ?n reader tb)"
    using process_file_trace_cases [of C flt f tb] by blast
  then show ?thesis
  proof cases
    case 1
    then show ?thesis by simp
  next
    case 2
    then show ?thesis by simp
  next
    case 3
    then show ?thesis
      using upload_no_warning [OF read_csv_nonempty [OF 3(1)], of x flt "fname f"
          "table_name (fname f)" ?n tb]
      by simp
  qed
qed

lemma process_files_no_warning:
  "LogWarningSkipped x \<notin> set (trace_of (process_files C env fs tb))"
proof (induction fs arbitrary: tb)
  case Nil
  then show ?case by (simp add: trace_of_def)
next
  case (Cons f fs)
  obtain r tb1 ev where pf: "process_file C (env (fname f)) f tb = (r, tb1, ev)"
    by (cases "process_file C (env (fname f)) f tb") auto
  have e: "LogWarningSkipped x \<notin> set ev"
    using process_file_no_warning [of x C "env (fname f)" f tb] pf by (simp add: trace_of_def)
  show ?case
    using pf e Cons.IH [of tb1]
    by (auto simp: trace_of_def split: option.splits prod.splits)
qed

text \<open>
  The handler of line 92 is never entered: the reader is built before the \<open>try\<close>, where a
  file of zero bytes raises \<open>EmptyDataError\<close>, and for every file it is built for, the
  first \<open>next(reader)\<close> returns a frame. No run logs the warning of line 93.
\<close>

lemma warning_never_logged:
  "LogWarningSkipped x \<notin> set (trace_of (load_data_fast dir env C tb))"
  using process_files_no_warning [of x C env "csv_files dir" tb]
  by (auto simp: load_data_fast_def trace_of_def Let_def split: option.splits prod.splits)

text \<open>
  Claim C4, where the code departs from it. \<open>empty.csv\<close> holds a header line only; chunk size
  100000, nothing raises, the database is empty. The first \<open>next(reader)\<close> returns a frame
  with the columns of the header and no rows, so \<open>to_sql\<close> runs and creates the table
  \<open>empty\<close>, the raw connection is opened and committed, the file is logged as ingested,
  and no warning is logged.
\<close>

theorem C4_header_only_file_creates_table:
  "raised (load_data_fast [empty_csv] (\<lambda>_. no_faults) 100000 Map.empty) = None
   \<and> db_of (load_data_fast [empty_csv] (\<lambda>_. no_faults) 100000 Map.empty) ''empty'' = Some []
   \<and> trace_of (load_data_fast [empty_csv] (\<lambda>_. no_faults) 100000 Map.empty)
       = [PrintChecking, PrintFoundFiles [''empty.csv''],
          PrintStarting ''empty.csv'', PrintPreCounting ''empty.csv'', PrintFoundRows 0,
          PbarOpen ''empty.csv'' 0, PrintInserting ''empty.csv'',
          ToSql ''empty'' [''id'', ''qty''] [], PbarUpdate 0, PrintFirstInserted,
          PrintSwitching, RawConnection ''empty.csv'', Commit ''empty.csv'',
          LogInfoIngested ''empty.csv'', Close ''empty.csv'', PrintClosed ''empty.csv'',
          LogInfoCompleted, PrintAllProcessed]"
  by (simp add: load_data_fast_def csv_files_def endswith_def empty_csv_def process_file_def
        read_csv_def read_chunks_def upload_def try_block_def handlers_def finally_block_def
        table_name_def splitext_def lower_def lower_char_def append_rows_def no_faults_def
        raised_def db_of_def trace_of_def Let_def)

text \<open>
  Claim C10, where the code departs from it. \<open>zero.csv\<close> has no line at all. The count is
  \<open>-1\<close>, as the claim says; then \<open>pd.read_csv\<close> at line 56 raises \<open>EmptyDataError\<close>, before
  the \<open>try\<close> of line 62: the exception leaves \<open>load_data_fast\<close>, no warning is logged, and
  \<open>sales.csv\<close>, next in the listing, is never started.
\<close>

theorem C10_zero_byte_file_aborts_run:
  "raised (load_data_fast [zero_csv, sales_csv] (\<lambda>_. no_faults) 2 Map.empty)
     = Some (Error ''EmptyDataError'')
   \<and> trace_of (load_data_fast [zero_csv, sales_csv] (\<lambda>_. no_faults) 2 Map.empty)
       = [PrintChecking, PrintFoundFiles [''zero.csv'', ''sales.csv''],
          PrintStarting ''zero.csv'', PrintPreCounting ''zero.csv'', PrintFoundRows (- 1)]
   \<and> db_of (load_data_fast [zero_csv, sales_csv] (\<lambda>_. no_faults) 2 Map.empty) ''sales'' = None"
  by code_simp


end
